theory Spec2Isabelle
  imports Complex_Main "HOL-Library.Multiset"
begin

section \<open>Data model\<close>

text \<open>
  The server (\<^verbatim>\<open>supabase/functions/server/index.tsx\<close>) stores usage entries as JSON
  objects and answers with JSON. In the aggregation, the bill calculator and the tip engine
  the numbers are IEEE-754 doubles: every sum, product and quotient there is rounded to the
  nearest double. The forecaster's sums, slope and intercept are computed exactly; its
  properties are about the least-squares formulas. An entry's \<^verbatim>\<open>date\<close> is the
  date-only ISO string \<^verbatim>\<open>YYYY-MM-DD\<close> that the input form sends; it is modelled by its
  three calendar fields. The runtime's local time zone is UTC (as on the hosting edge
  runtime), so \<^verbatim>\<open>getMonth\<close>, \<^verbatim>\<open>getFullYear\<close>, \<^verbatim>\<open>getDate\<close> and \<^verbatim>\<open>setDate\<close> read and write the
  same calendar fields that \<^verbatim>\<open>toISOString\<close> prints.

  Each handler runs inside \<^verbatim>\<open>try { ... } catch\<close>, which answers with status 500 when
  something throws. On entries of the record type below nothing in the three handlers
  throws, so that branch has no counterpart here; the verification of the access token is
  the parameter \<^verbatim>\<open>auth\<close> of each handler.
\<close>

record iso_date =
  yyyy :: int
  mm :: int
  dd :: int

record entry =
  userId :: string
  date :: iso_date
  usage :: real
  appliance :: string
  cost :: real
  timestamp :: string

datatype json =
    JNull
  | JNum real
  | JStr string
  | JArr "json list"
  | JObj "(string \<times> json) list"

text \<open>A response of the HTTP framework: \<^verbatim>\<open>c.json(obj)\<close> has status 200,
  \<^verbatim>\<open>c.json(obj, code)\<close> has status \<^verbatim>\<open>code\<close>.\<close>

type_synonym response = "nat \<times> json"

definition c_json :: "json \<Rightarrow> response" where
  "c_json obj = (200, obj)"

definition c_json_status :: "json \<Rightarrow> nat \<Rightarrow> response" where
  "c_json_status obj code = (code, obj)"

text \<open>\<^verbatim>\<open>kv.getByPrefix(`usage:${user.id}:`)\<close>: the key-value store, read by user id.\<close>

type_synonym kv_store = "string \<Rightarrow> entry list"

definition unauthorized :: response where
  "unauthorized = c_json_status (JObj [(''error'', JStr ''Unauthorized'')]) 401"

subsection \<open>Double-precision arithmetic\<close>

text \<open>Rounding to the nearest integer, a tie to the even one.\<close>

definition round_half_even :: "real \<Rightarrow> int" where
  "round_half_even y =
     (let f = \<lfloor>y\<rfloor>; r = y - of_int f
      in if r < 1 / 2 then f else if 1 / 2 < r then f + 1 else if even f then f else f + 1)"

text \<open>A double has 53 significant bits; the exponent of its last bit is at least -1074
  (below \<open>2 powi (- 1022)\<close> the doubles are subnormal, with a fixed spacing).\<close>

definition exponent64 :: "real \<Rightarrow> int" where
  "exponent64 x = max (\<lfloor>log 2 \<bar>x\<bar>\<rfloor> - 52) (- 1074)"

text \<open>The double nearest to a real number (round to nearest, ties to even).\<close>

definition binary64 :: "real \<Rightarrow> real" where
  "binary64 x =
     (if x = 0 then 0
      else of_int (round_half_even (x / 2 powi exponent64 x)) * 2 powi exponent64 x)"

text \<open>A result at or beyond this bound is \<^verbatim>\<open>Infinity\<close> in the program, which a real number
  cannot hold; the properties that depend on it assume that no step overflows.\<close>

definition overflows :: "real \<Rightarrow> bool" where
  "overflows x = (2 ^ 1024 - 2 ^ 970 \<le> \<bar>x\<bar>)"

text \<open>\<^verbatim>\<open>a + b\<close>, \<^verbatim>\<open>a * b\<close> and \<^verbatim>\<open>a / b\<close> on doubles: the exact result, rounded.\<close>

definition js_add :: "real \<Rightarrow> real \<Rightarrow> real" where
  "js_add a b = binary64 (a + b)"

definition js_mul :: "real \<Rightarrow> real \<Rightarrow> real" where
  "js_mul a b = binary64 (a * b)"

definition js_div :: "real \<Rightarrow> real \<Rightarrow> real" where
  "js_div a b = binary64 (a / b)"

subsection \<open>The \<^verbatim>\<open>Date\<close> builtin on date-only strings\<close>

definition is_leap :: "int \<Rightarrow> bool" where
  "is_leap y = (if y mod 400 = 0 then True else if y mod 100 = 0 then False else y mod 4 = 0)"

definition days_in_month :: "int \<Rightarrow> int \<Rightarrow> int" where
  "days_in_month y m =
     (if m = 2 then (if is_leap y then 29 else 28)
      else if m = 4 then 30 else if m = 6 then 30 else if m = 9 then 30
      else if m = 11 then 30 else 31)"

text \<open>ECMAScript's \<^verbatim>\<open>DayFromYear\<close> and \<^verbatim>\<open>MakeDay\<close>: the day number since 1970-01-01.\<close>

definition DayFromYear :: "int \<Rightarrow> int" where
  "DayFromYear y =
     365 * (y - 1970) + (y - 1969) div 4 - (y - 1901) div 100 + (y - 1601) div 400"

definition MakeDay :: "int \<Rightarrow> int \<Rightarrow> int \<Rightarrow> int" where
  "MakeDay y m d = DayFromYear y + sum_list (map (days_in_month y) [1..m - 1]) + d - 1"

definition msPerDay :: int where
  "msPerDay = 86400000"

text \<open>\<^verbatim>\<open>new Date(s).getTime()\<close> for a date-only string: UTC midnight of that day.\<close>

definition getTime :: "iso_date \<Rightarrow> int" where
  "getTime d = MakeDay (yyyy d) (mm d) (dd d) * msPerDay"

text \<open>\<^verbatim>\<open>new Date(s)\<close> as the calendar fields that \<^verbatim>\<open>getMonth\<close> and \<^verbatim>\<open>getFullYear\<close> read. The
  runtime takes a month from 1 to 12 and a day from 1 to 31, and carries a day past the end
  of the month into the next month (\<^verbatim>\<open>2024-02-30\<close> is 1 March 2024); anything else is an
  invalid \<^verbatim>\<open>Date\<close> (\<^verbatim>\<open>None\<close>), whose \<^verbatim>\<open>getMonth\<close> is \<^verbatim>\<open>NaN\<close>.\<close>

definition new_Date :: "iso_date \<Rightarrow> iso_date option" where
  "new_Date d =
     (if 1 \<le> mm d \<and> mm d \<le> 12 \<and> 1 \<le> dd d \<and> dd d \<le> 31
      then (if dd d \<le> days_in_month (yyyy d) (mm d) then Some d
            else Some (d\<lparr>mm := mm d + 1, dd := dd d - days_in_month (yyyy d) (mm d)\<rparr>))
      else None)"

text \<open>A date of the calendar, which \<^verbatim>\<open>new Date\<close> reads as written.\<close>

definition calendar_date :: "iso_date \<Rightarrow> bool" where
  "calendar_date d =
     (1 \<le> mm d \<and> mm d \<le> 12 \<and> 1 \<le> dd d \<and> dd d \<le> days_in_month (yyyy d) (mm d))"

text \<open>\<^verbatim>\<open>getMonth\<close> counts months from 0.\<close>

definition getMonth :: "iso_date \<Rightarrow> int" where
  "getMonth d = mm d - 1"

definition getFullYear :: "iso_date \<Rightarrow> int" where
  "getFullYear d = yyyy d"

text \<open>\<^verbatim>\<open>d.setDate(d.getDate() + i)\<close> moves the date \<^verbatim>\<open>i\<close> days forward, carrying into the
  next month and year.\<close>

definition next_day :: "iso_date \<Rightarrow> iso_date" where
  "next_day d =
     (if dd d < days_in_month (yyyy d) (mm d) then d\<lparr>dd := dd d + 1\<rparr>
      else if mm d < 12 then d\<lparr>mm := mm d + 1, dd := 1\<rparr>
      else d\<lparr>yyyy := yyyy d + 1, mm := 1, dd := 1\<rparr>)"

fun setDate_plus :: "iso_date \<Rightarrow> nat \<Rightarrow> iso_date" where
  "setDate_plus d 0 = d"
| "setDate_plus d (Suc i) = setDate_plus (next_day d) i"

text \<open>\<^verbatim>\<open>toISOString().split('T')[0]\<close>: the text \<^verbatim>\<open>YYYY-MM-DD\<close>, zero padded (years 0 to 9999).\<close>

definition digit :: "int \<Rightarrow> char" where
  "digit k = ''0123456789'' ! nat (k mod 10)"

definition pad2 :: "int \<Rightarrow> string" where
  "pad2 k = [digit (k div 10), digit k]"

definition pad4 :: "int \<Rightarrow> string" where
  "pad4 k = [digit (k div 1000), digit (k div 100), digit (k div 10), digit k]"

definition toISODate :: "iso_date \<Rightarrow> string" where
  "toISODate d = pad4 (yyyy d) @ ''-'' @ pad2 (mm d) @ ''-'' @ pad2 (dd d)"

section \<open>Aggregation and the bill calculator\<close>

text \<open>\<^verbatim>\<open>xs.reduce((sum, entry) => sum + entry.usage, 0)\<close>\<close>

definition totalUsage_of :: "entry list \<Rightarrow> real" where
  "totalUsage_of xs = foldl (\<lambda>sum entry. js_add sum (usage entry)) 0 xs"

text \<open>The filter of the bill handler: \<^verbatim>\<open>entryDate = new Date(entry.date)\<close>, then
  \<^verbatim>\<open>entryDate.getMonth() === month - 1 && entryDate.getFullYear() === year\<close>; a comparison
  with \<^verbatim>\<open>NaN\<close> is false.\<close>

definition in_month :: "int \<Rightarrow> int \<Rightarrow> entry \<Rightarrow> bool" where
  "in_month month year entry =
     (case new_Date (date entry) of
        None \<Rightarrow> False
      | Some entryDate \<Rightarrow> getMonth entryDate = month - 1 \<and> getFullYear entryDate = year)"

definition monthlyData_of :: "entry list \<Rightarrow> int \<Rightarrow> int \<Rightarrow> entry list" where
  "monthlyData_of usageData month year = filter (in_month month year) usageData"

text \<open>The handler of \<^verbatim>\<open>POST /calculate-bill\<close>. \<^verbatim>\<open>auth\<close> is the user id of a verified
  token (\<^verbatim>\<open>None\<close> when the token does not verify); \<^verbatim>\<open>ratePerKwh\<close> is optional in the
  request body and defaults to the double \<^verbatim>\<open>0.12\<close>.\<close>

definition calculate_bill ::
  "string option \<Rightarrow> kv_store \<Rightarrow> int \<Rightarrow> int \<Rightarrow> real option \<Rightarrow> response" where
  "calculate_bill auth kv month year rate_opt =
     (case auth of
        None \<Rightarrow> unauthorized
      | Some uid \<Rightarrow>
          (let ratePerKwh = (case rate_opt of None \<Rightarrow> binary64 (12 / 100) | Some r \<Rightarrow> r);
               usageData = kv uid;
               monthlyData = monthlyData_of usageData month year;
               totalUsage = totalUsage_of monthlyData;
               estimatedCost = js_mul totalUsage ratePerKwh;
               billData = JObj
                 [(''month'', JNum (of_int month)),
                  (''year'', JNum (of_int year)),
                  (''totalUsage'', JNum totalUsage),
                  (''ratePerKwh'', JNum ratePerKwh),
                  (''estimatedCost'', JNum estimatedCost),
                  (''entriesCount'', JNum (of_nat (length monthlyData)))]
           in c_json (JObj [(''bill'', billData)])))"

section \<open>The tip engine\<close>

definition tip_led :: string where
  "tip_led = ''Your daily usage is quite high. Consider switching to LED bulbs to reduce consumption by up to 80%.''"

definition tip_unplug :: string where
  "tip_unplug = ''Unplug electronics when not in use to avoid phantom power drain.''"

definition tip_energy_star :: string where
  "tip_energy_star = ''Consider upgrading to ENERGY STAR certified appliances for significant savings.''"

definition tip_thermostat :: string where
  "tip_thermostat = ''Set your thermostat 2-3 degrees higher in summer and lower in winter.''"

definition tip_hvac :: string where
  "tip_hvac = ''HVAC is your biggest energy consumer. Regular maintenance can improve efficiency by 15%.''"

text \<open>The degree sign of the source text is the single character U+00B0.\<close>

definition tip_water_heater :: string where
  "tip_water_heater = ''Lower your water heater temperature to 120'' @ [CHR 0xB0] @
     ''F to save energy without sacrificing comfort.''"

definition tip_solar :: string where
  "tip_solar = ''Great job maintaining low energy usage! Consider solar panels for even greater savings.''"

definition tip_power_strips :: string where
  "tip_power_strips = ''Smart power strips can help eliminate standby power consumption.''"

text \<open>A JavaScript object with string keys, as the list of its own properties in insertion
  order. \<^verbatim>\<open>obj_set\<close> is the assignment \<^verbatim>\<open>acc[k] = v\<close>: an existing property keeps its place, a
  new one goes last. This is what the object literal \<^verbatim>\<open>{}\<close> does for plain labels
  (\<open>plain_label\<close> below): \<^verbatim>\<open>Object.keys\<close> lists array-index keys such as \<^verbatim>\<open>'1'\<close> first, and a label
  that names a member of \<^verbatim>\<open>Object.prototype\<close> reads the inherited member.\<close>

fun obj_set :: "(string \<times> real) list \<Rightarrow> string \<Rightarrow> real \<Rightarrow> (string \<times> real) list" where
  "obj_set [] k v = [(k, v)]"
| "obj_set (p # ps) k v = (if fst p = k then (k, v) # ps else p # obj_set ps k v)"

text \<open>\<^verbatim>\<open>x || 0\<close> on a property read: \<^verbatim>\<open>undefined\<close> and \<^verbatim>\<open>0\<close> are falsy.\<close>

definition or_zero :: "real option \<Rightarrow> real" where
  "or_zero x = (case x of None \<Rightarrow> 0 | Some v \<Rightarrow> (if v = 0 then 0 else v))"

text \<open>\<^verbatim>\<open>a > b\<close> on property reads: a comparison with \<^verbatim>\<open>undefined\<close> is false.\<close>

definition js_gt :: "real option \<Rightarrow> real option \<Rightarrow> bool" where
  "js_gt a b =
     (case a of None \<Rightarrow> False
      | Some x \<Rightarrow> (case b of None \<Rightarrow> False | Some y \<Rightarrow> x > y))"

definition applianceUsage_of :: "entry list \<Rightarrow> (string \<times> real) list" where
  "applianceUsage_of usageData =
     foldl (\<lambda>acc entry.
              obj_set acc (appliance entry)
                (js_add (or_zero (map_of acc (appliance entry))) (usage entry)))
       [] usageData"

definition topAppliance_of :: "(string \<times> real) list \<Rightarrow> string" where
  "topAppliance_of applianceUsage =
     foldl (\<lambda>a b. if js_gt (map_of applianceUsage a) (map_of applianceUsage b) then a else b)
       ''General'' (map fst applianceUsage)"

definition avgDailyUsage_of :: "entry list \<Rightarrow> real" where
  "avgDailyUsage_of usageData =
     js_div (totalUsage_of usageData) (max (real (length usageData)) 1)"

text \<open>The rule ladder of \<^verbatim>\<open>GET /energy-tips\<close>; each \<^verbatim>\<open>tips.push\<close> appends.\<close>

definition tips_of :: "entry list \<Rightarrow> string list" where
  "tips_of usageData =
     (let avgDailyUsage = avgDailyUsage_of usageData;
          tips = [];
          tips = (if avgDailyUsage > 30 then tips @ [tip_led] @ [tip_unplug] else tips);
          tips = (if avgDailyUsage > 50 then tips @ [tip_energy_star] @ [tip_thermostat]
                  else tips);
          applianceUsage = applianceUsage_of usageData;
          topAppliance = topAppliance_of applianceUsage;
          tips = (if topAppliance = ''HVAC'' then tips @ [tip_hvac]
                  else if topAppliance = ''Water Heater'' then tips @ [tip_water_heater]
                  else tips);
          tips = (if length tips = 0 then tips @ [tip_solar] @ [tip_power_strips] else tips)
      in tips)"

definition energy_tips :: "string option \<Rightarrow> kv_store \<Rightarrow> response" where
  "energy_tips auth kv =
     (case auth of
        None \<Rightarrow> unauthorized
      | Some uid \<Rightarrow> c_json (JObj [(''tips'', JArr (map JStr (tips_of (kv uid))))]))"

subsection \<open>The dominant appliance, in words\<close>

text \<open>The summed usage of a category (the sum of the doubles, in the order of the
  entries), and the categories in the order of their first entry.\<close>

definition category_usage :: "entry list \<Rightarrow> string \<Rightarrow> real" where
  "category_usage es k = totalUsage_of (filter (\<lambda>e. appliance e = k) es)"

definition categories :: "entry list \<Rightarrow> string list" where
  "categories es = rev (remdups (rev (map appliance es)))"

definition largest_categories :: "entry list \<Rightarrow> string list" where
  "largest_categories es =
     filter (\<lambda>k. list_all (\<lambda>k'. category_usage es k' \<le> category_usage es k) (categories es))
       (categories es)"

text \<open>The specification's reading: among the categories of largest summed usage, the
  first one encountered.\<close>

definition dominant_first_encountered :: "entry list \<Rightarrow> string" where
  "dominant_first_encountered es =
     (case largest_categories es of [] \<Rightarrow> ''General'' | k # ks \<Rightarrow> k)"

text \<open>Among the categories of largest summed usage, the last one encountered.\<close>

definition dominant_last_encountered :: "entry list \<Rightarrow> string" where
  "dominant_last_encountered es =
     (case largest_categories es of [] \<Rightarrow> ''General'' | k # ks \<Rightarrow> last (k # ks))"

subsection \<open>Labels and sums within the model\<close>

text \<open>The labels that \<^verbatim>\<open>Object.keys\<close> lists first (digit strings in canonical form) and the
  names of the members of \<^verbatim>\<open>Object.prototype\<close>; every other label is plain.\<close>

definition digit_label :: "string \<Rightarrow> bool" where
  "digit_label s =
     (if s = [] then False
      else if s = ''0'' then True
      else if hd s = CHR ''0'' then False
      else list_all (\<lambda>c. c \<in> set ''0123456789'') s)"

definition prototype_member :: "string \<Rightarrow> bool" where
  "prototype_member s =
     (s \<in> set [''constructor'', ''__proto__'', ''__defineGetter__'', ''__defineSetter__'',
                ''__lookupGetter__'', ''__lookupSetter__'', ''hasOwnProperty'',
                ''isPrototypeOf'', ''propertyIsEnumerable'', ''toLocaleString'', ''toString'',
                ''valueOf''])"

definition plain_label :: "string \<Rightarrow> bool" where
  "plain_label s = (if digit_label s then False else if prototype_member s then False else True)"

text \<open>No addition of the reduce over these numbers overflows: \<open>s\<close> is the sum so far.\<close>

fun in_range_from :: "real \<Rightarrow> real list \<Rightarrow> bool" where
  "in_range_from s [] = True"
| "in_range_from s (u # us) = (if overflows (s + u) then False else in_range_from (js_add s u) us)"

definition sum_in_range :: "entry list \<Rightarrow> bool" where
  "sum_in_range es = in_range_from 0 (map usage es)"

text \<open>The total and the sum of every category stay in range.\<close>

definition sums_in_range :: "entry list \<Rightarrow> bool" where
  "sums_in_range es =
     (sum_in_range es
      \<and> list_all (\<lambda>k. sum_in_range (filter (\<lambda>e. appliance e = k) es)) (categories es))"

text \<open>No addition of the reduce rounds or overflows: every sum so far is a double as it
  stands.\<close>

fun exact_from :: "real \<Rightarrow> real list \<Rightarrow> bool" where
  "exact_from s [] = True"
| "exact_from s (u # us) =
     (if overflows (s + u) then False
      else if binary64 (s + u) = s + u then exact_from (s + u) us
      else False)"

definition exact_sum :: "entry list \<Rightarrow> bool" where
  "exact_sum es = exact_from 0 (map usage es)"

section \<open>The forecaster\<close>

text \<open>\<^verbatim>\<open>xs.slice(-k)\<close>: the last \<^verbatim>\<open>k\<close> elements, all of them when there are fewer.\<close>

definition slice_last :: "nat \<Rightarrow> 'a list \<Rightarrow> 'a list" where
  "slice_last k xs = drop (length xs - k) xs"

text \<open>\<^verbatim>\<open>usageData.sort((a, b) => new Date(a.date).getTime() - new Date(b.date).getTime())
  .slice(-30)\<close>; the sort of the runtime is stable.\<close>

definition sortedData_of :: "entry list \<Rightarrow> entry list" where
  "sortedData_of usageData = slice_last 30 (sort_key (\<lambda>e. getTime (date e)) usageData)"

text \<open>The \<^verbatim>\<open>forEach\<close> loop over \<^verbatim>\<open>(entry, index)\<close>, on the accumulators
  \<^verbatim>\<open>(sumX, sumY, sumXY, sumXX)\<close>.\<close>

fun regression_sums ::
  "entry list \<Rightarrow> nat \<Rightarrow> real \<times> real \<times> real \<times> real \<Rightarrow> real \<times> real \<times> real \<times> real" where
  "regression_sums [] index acc = acc"
| "regression_sums (entry # rest) index (sumX, sumY, sumXY, sumXX) =
     (let x = real index; y = usage entry
      in regression_sums rest (index + 1) (sumX + x, sumY + y, sumXY + x * y, sumXX + x * x))"

definition slope_of :: "real \<Rightarrow> real \<times> real \<times> real \<times> real \<Rightarrow> real" where
  "slope_of n acc =
     (case acc of (sumX, sumY, sumXY, sumXX) \<Rightarrow>
        (n * sumXY - sumX * sumY) / (n * sumXX - sumX * sumX))"

definition intercept_of :: "real \<Rightarrow> real \<times> real \<times> real \<times> real \<Rightarrow> real \<Rightarrow> real" where
  "intercept_of n acc slope =
     (case acc of (sumX, sumY, sumXY, sumXX) \<Rightarrow> (sumY - slope * sumX) / n)"

text \<open>\<^verbatim>\<open>Math.round\<close> rounds to the nearest integer, a half upwards.\<close>

definition Math_round :: "real \<Rightarrow> int" where
  "Math_round x = \<lfloor>x + 1 / 2\<rfloor>"

definition prediction_at :: "real \<Rightarrow> real \<Rightarrow> real \<Rightarrow> iso_date \<Rightarrow> nat \<Rightarrow> json" where
  "prediction_at n slope intercept today i =
     (let predictedUsage = max 0 (slope * (n + real i - 1) + intercept);
          date = setDate_plus today i
      in JObj [(''date'', JStr (toISODate date)),
               (''predictedUsage'', JNum (of_int (Math_round (predictedUsage * 100)) / 100))])"

text \<open>\<^verbatim>\<open>for (let i = 1; i <= 7; i++) predictions.push(...)\<close>\<close>

function predict_loop ::
  "nat \<Rightarrow> real \<Rightarrow> real \<Rightarrow> real \<Rightarrow> iso_date \<Rightarrow> json list \<Rightarrow> json list" where
  "predict_loop i n slope intercept today predictions =
     (if i \<le> 7
      then predict_loop (i + 1) n slope intercept today
             (predictions @ [prediction_at n slope intercept today i])
      else predictions)"
  by pat_completeness auto
termination
  by (relation "measure (\<lambda>(i, n, slope, intercept, today, predictions). 8 - i)") auto

text \<open>The handler of \<^verbatim>\<open>GET /predict-usage\<close>; \<^verbatim>\<open>today\<close> is the date of \<^verbatim>\<open>new Date()\<close> at
  the request.\<close>

definition predict_usage :: "string option \<Rightarrow> kv_store \<Rightarrow> iso_date \<Rightarrow> response" where
  "predict_usage auth kv today =
     (case auth of
        None \<Rightarrow> unauthorized
      | Some uid \<Rightarrow>
          (let usageData = kv uid in
           if length usageData < 7
           then c_json (JObj
                  [(''prediction'', JNull),
                   (''message'', JStr ''Need at least 7 days of data for prediction'')])
           else
             (let sortedData = sortedData_of usageData;
                  n = real (length sortedData);
                  acc = regression_sums sortedData 0 (0, 0, 0, 0);
                  slope = slope_of n acc;
                  intercept = intercept_of n acc slope;
                  predictions = predict_loop 1 n slope intercept today []
              in c_json (JObj [(''predictions'', JArr predictions)]))))"

section \<open>Example inputs\<close>

text \<open>A week of entries with usage 1 to 7 in date order (stored out of order), and a week
  whose usage falls by 2 a day; they are the inputs at which the theorems below are
  evaluated.\<close>

definition entry_on :: "int \<Rightarrow> int \<Rightarrow> int \<Rightarrow> real \<Rightarrow> string \<Rightarrow> entry" where
  "entry_on y m d u a =
     \<lparr>userId = ''user-1'', date = \<lparr>yyyy = y, mm = m, dd = d\<rparr>, usage = u, appliance = a,
      cost = 0, timestamp = ''''\<rparr>"

definition rising_week :: "entry list" where
  "rising_week =
     [entry_on 2024 3 3 3 ''General'', entry_on 2024 3 1 1 ''General'',
      entry_on 2024 3 2 2 ''HVAC'', entry_on 2024 3 7 7 ''General'',
      entry_on 2024 3 4 4 ''General'', entry_on 2024 3 6 6 ''General'',
      entry_on 2024 3 5 5 ''General'']"


section \<open>Properties of the double-precision arithmetic\<close>

text \<open>
  The exponent of a number between two consecutive powers of two, which evaluates
  \<open>binary64\<close> at a given number; integers below \<open>2 ^ 53\<close> are doubles.
\<close>

lemma exponent64_eq:
  assumes "2 powi k \<le> \<bar>x\<bar>" and "\<bar>x\<bar> < 2 powi (k + 1)" and "- 1022 \<le> k"
  shows "exponent64 x = k - 52"
proof -
  have pos: "0 < \<bar>x\<bar>"
    using assms(1) by (smt (verit) zero_less_power_int)
  have "(2::real) powr of_int k = 2 powi k" "(2::real) powr of_int (k + 1) = 2 powi (k + 1)"
    by (rule powr_real_of_int'; simp)+
  then have "2 powr of_int k \<le> \<bar>x\<bar>" "\<bar>x\<bar> < 2 powr (of_int k + 1)"
    using assms(1,2) by simp_all
  then have "\<lfloor>log 2 \<bar>x\<bar>\<rfloor> = k"
    using pos by (simp add: floor_log_eq_powr_iff)
  with assms(3) show ?thesis
    by (simp add: exponent64_def)
qed

lemma binary64_eval:
  assumes "2 powi k \<le> \<bar>x\<bar>" and "\<bar>x\<bar> < 2 powi (k + 1)" and "- 1022 \<le> k"
  shows "binary64 x = of_int (round_half_even (x / 2 powi (k - 52))) * 2 powi (k - 52)"
proof -
  have "x \<noteq> 0"
    using assms(1) by (smt (verit) abs_zero zero_less_power_int)
  then show ?thesis
    by (simp add: binary64_def exponent64_eq [OF assms])
qed

lemma binary64_0: "binary64 0 = 0"
  by (simp add: binary64_def)

lemma round_half_even_of_int: "round_half_even (of_int m) = m"
  by (simp add: round_half_even_def)

lemma binary64_of_int:
  assumes "\<bar>n\<bar> < 2 ^ 53"
  shows "binary64 (of_int n) = of_int n"
proof (cases "n = 0")
  case True
  then show ?thesis by (simp add: binary64_0)
next
  case False
  define x :: real where "x = of_int n"
  define k where "k = \<lfloor>log 2 \<bar>x\<bar>\<rfloor>"
  have x1: "1 \<le> \<bar>x\<bar>"
    using False by (simp add: x_def flip: of_int_abs)
  have x53: "\<bar>x\<bar> < 2 ^ 53"
    using assms unfolding x_def
    by (metis of_int_abs of_int_less_iff of_int_numeral of_int_power)
  have "0 \<le> log 2 \<bar>x\<bar>"
    using x1 by simp
  then have k0: "0 \<le> k"
    by (simp add: k_def)
  have "log 2 \<bar>x\<bar> < 53"
    using x1 x53 by (simp add: log_less_iff)
  then have k52: "k \<le> 52"
    by (simp add: k_def floor_le_iff)
  have e: "exponent64 x = k - 52"
    using k0 by (simp add: exponent64_def k_def)
  have "x / 2 powi (k - 52) = x * 2 powi (52 - k)"
    by (simp add: power_int_diff field_simps)
  also have "2 powi (52 - k) = (2::real) ^ nat (52 - k)"
    using k52 by (simp add: power_int_def)
  also have "x * 2 ^ nat (52 - k) = of_int (n * 2 ^ nat (52 - k))"
    by (simp add: x_def)
  finally have "round_half_even (x / 2 powi (k - 52)) = n * 2 ^ nat (52 - k)"
    by (simp only: round_half_even_of_int)
  moreover have "x \<noteq> 0"
    using x1 by auto
  ultimately have "binary64 x = of_int (n * 2 ^ nat (52 - k)) * 2 powi (k - 52)"
    by (simp add: binary64_def e)
  also have "\<dots> = x * (2 powi (52 - k) * 2 powi (k - 52))"
    using k52 by (simp add: x_def power_int_def)
  also have "2 powi (52 - k) * 2 powi (k - 52) = (1::real)"
    by (simp flip: power_int_add)
  finally show ?thesis
    by (simp add: x_def)
qed

lemma binary64_small_values:
  "binary64 2 = 2" "binary64 4 = 4" "binary64 5 = 5" "binary64 10 = 10" "binary64 15 = 15"
  "binary64 20 = 20" "binary64 40 = 40" "binary64 80 = 80" "binary64 (- 5) = - 5"
  using binary64_of_int [of 2] binary64_of_int [of 4] binary64_of_int [of 5]
    binary64_of_int [of 10] binary64_of_int [of 15] binary64_of_int [of 20]
    binary64_of_int [of 40] binary64_of_int [of 80] binary64_of_int [of "- 5"]
  by simp_all

lemma not_overflows_small: "\<bar>x\<bar> \<le> 2 ^ 53 \<Longrightarrow> \<not> overflows x"
  by (simp add: overflows_def)

section \<open>Properties of the aggregation\<close>

lemma exact_from_foldl:
  "exact_from s us \<Longrightarrow> foldl js_add s us = s + sum_list us"
proof (induction us arbitrary: s)
  case Nil
  show ?case by simp
next
  case (Cons u us)
  from Cons.prems have eq: "binary64 (s + u) = s + u" and rest: "exact_from (s + u) us"
    by (simp_all split: if_splits)
  from Cons.IH [OF rest] show ?case
    by (simp add: js_add_def eq add.assoc)
qed

lemma totalUsage_of_foldl: "totalUsage_of xs = foldl js_add 0 (map usage xs)"
  by (simp add: totalUsage_of_def foldl_map)

lemma totalUsage_of_exact: "exact_sum xs \<Longrightarrow> totalUsage_of xs = sum_list (map usage xs)"
  using exact_from_foldl [of 0 "map usage xs"] by (simp add: exact_sum_def totalUsage_of_foldl)

lemma sum_list_usage_mset:
  "sum_list (map usage xs) = sum_mset (image_mset usage (mset xs))"
  by (induction xs) simp_all

lemma totalUsage_of_snoc: "totalUsage_of (xs @ [e]) = js_add (totalUsage_of xs) (usage e)"
  by (simp add: totalUsage_of_def)

lemma totalUsage_of_Nil: "totalUsage_of [] = 0"
  by (simp add: totalUsage_of_def)

lemma binary64_tenths:
  "binary64 (1 / 10) = 3602879701896397 / 2 ^ 55"
  "binary64 (2 / 10) = 3602879701896397 / 2 ^ 54"
  "binary64 (3 / 10) = 5404319552844595 / 2 ^ 54"
  by (subst binary64_eval [where k = "- 4"], simp_all add: round_half_even_def)
     (subst binary64_eval [where k = "- 3"], simp_all add: round_half_even_def,
      subst binary64_eval [where k = "- 2"], simp_all add: round_half_even_def)

lemma binary64_tenths_fixed:
  "binary64 (3602879701896397 / 2 ^ 55) = 3602879701896397 / 2 ^ 55"
  "binary64 (5404319552844595 / 2 ^ 54) = 5404319552844595 / 2 ^ 54"
  by (subst binary64_eval [where k = "- 4"], simp_all add: round_half_even_def)
     (subst binary64_eval [where k = "- 2"], simp_all add: round_half_even_def)

lemma sum_tenths_ascending:
  "binary64 (3602879701896397 / 2 ^ 55 + 3602879701896397 / 2 ^ 54) = 5404319552844596 / 2 ^ 54"
  "binary64 (5404319552844596 / 2 ^ 54 + 5404319552844595 / 2 ^ 54) = 5404319552844596 / 2 ^ 53"
  by (subst binary64_eval [where k = "- 2"], simp_all add: round_half_even_def)
     (subst binary64_eval [where k = "- 1"], simp_all add: round_half_even_def)

lemma sum_tenths_descending:
  "binary64 (5404319552844595 / 2 ^ 54 + 3602879701896397 / 2 ^ 54) = 1 / 2"
  "binary64 (1 / 2 + 3602879701896397 / 2 ^ 55) = 5404319552844595 / 2 ^ 53"
  by (subst binary64_eval [where k = "- 1"], simp_all add: round_half_even_def)
     (subst binary64_eval [where k = "- 1"], simp_all add: round_half_even_def)

text \<open>
  The doubles 0.1, 0.2 and 0.3 add up to 0.6000000000000001 in this order and to 0.6 in the
  reverse order: the total depends on the order of the entries.
\<close>

theorem aggregator_reordering_counterexample:
  "mset [entry_on 2024 3 3 (binary64 (3 / 10)) ''General'',
         entry_on 2024 3 2 (binary64 (2 / 10)) ''General'',
         entry_on 2024 3 1 (binary64 (1 / 10)) ''General'']
     = mset [entry_on 2024 3 1 (binary64 (1 / 10)) ''General'',
             entry_on 2024 3 2 (binary64 (2 / 10)) ''General'',
             entry_on 2024 3 3 (binary64 (3 / 10)) ''General'']
   \<and> totalUsage_of [entry_on 2024 3 1 (binary64 (1 / 10)) ''General'',
                     entry_on 2024 3 2 (binary64 (2 / 10)) ''General'',
                     entry_on 2024 3 3 (binary64 (3 / 10)) ''General'']
     = 5404319552844596 / 2 ^ 53
   \<and> totalUsage_of [entry_on 2024 3 3 (binary64 (3 / 10)) ''General'',
                     entry_on 2024 3 2 (binary64 (2 / 10)) ''General'',
                     entry_on 2024 3 1 (binary64 (1 / 10)) ''General'']
     = 5404319552844595 / 2 ^ 53
   \<and> (5404319552844595 / 2 ^ 53 :: real) \<noteq> 5404319552844596 / 2 ^ 53"
proof -
  have up: "totalUsage_of [entry_on 2024 3 1 (binary64 (1 / 10)) ''General'',
                     entry_on 2024 3 2 (binary64 (2 / 10)) ''General'',
                     entry_on 2024 3 3 (binary64 (3 / 10)) ''General'']
     = 5404319552844596 / 2 ^ 53"
    by (simp only: totalUsage_of_def foldl.simps entry_on_def entry.simps js_add_def
        binary64_tenths add_0 binary64_tenths_fixed sum_tenths_ascending)
  have down: "totalUsage_of [entry_on 2024 3 3 (binary64 (3 / 10)) ''General'',
                     entry_on 2024 3 2 (binary64 (2 / 10)) ''General'',
                     entry_on 2024 3 1 (binary64 (1 / 10)) ''General'']
     = 5404319552844595 / 2 ^ 53"
    by (simp only: totalUsage_of_def foldl.simps entry_on_def entry.simps js_add_def
        binary64_tenths add_0 binary64_tenths_fixed sum_tenths_descending)
  have perm: "mset [entry_on 2024 3 3 (binary64 (3 / 10)) ''General'',
         entry_on 2024 3 2 (binary64 (2 / 10)) ''General'',
         entry_on 2024 3 1 (binary64 (1 / 10)) ''General'']
     = mset [entry_on 2024 3 1 (binary64 (1 / 10)) ''General'',
             entry_on 2024 3 2 (binary64 (2 / 10)) ''General'',
             entry_on 2024 3 3 (binary64 (3 / 10)) ''General'']"
    by (simp add: add_mset_commute)
  have "(5404319552844595 / 2 ^ 53 :: real) \<noteq> 5404319552844596 / 2 ^ 53"
    by simp
  with up down perm show ?thesis
    by (simp only: simp_thms)
qed

text \<open>
  Claim C8, as the code has it. The aggregated total usage is the sum of the usage fields
  taken from left to right, each addition rounded to the nearest double. When no addition
  rounds or overflows, it is the exact sum, and two orders of the same entries for which
  this holds give the same total. On the empty entry list the total is 0, the count is 0 and
  the average is 0; the average divides by \<open>max(count, 1)\<close>, which is at least 1.
\<close>

theorem aggregator_total:
  "totalUsage_of [] = 0
   \<and> totalUsage_of (xs @ [e]) = js_add (totalUsage_of xs) (usage e)
   \<and> (exact_sum xs \<longrightarrow> totalUsage_of xs = (\<Sum>e\<leftarrow>xs. usage e))
   \<and> (exact_sum xs \<and> exact_sum ys \<and> mset ys = mset xs \<longrightarrow> totalUsage_of ys = totalUsage_of xs)
   \<and> length (monthlyData_of [] month year) = 0
   \<and> avgDailyUsage_of [] = 0
   \<and> avgDailyUsage_of xs = js_div (totalUsage_of xs) (max (real (length xs)) 1)
   \<and> 1 \<le> max (real (length xs)) 1"
proof -
  have "totalUsage_of ys = totalUsage_of xs"
    if "exact_sum xs" "exact_sum ys" "mset ys = mset xs"
    using that by (simp add: totalUsage_of_exact sum_list_usage_mset)
  then show ?thesis
    by (simp add: totalUsage_of_Nil totalUsage_of_snoc totalUsage_of_exact monthlyData_of_def
        avgDailyUsage_of_def js_div_def binary64_0)
qed

theorem aggregator_total_witness:
  "exact_sum [entry_on 2024 3 1 10 ''General'', entry_on 2024 3 2 5 ''HVAC'']
   \<and> exact_sum [entry_on 2024 3 2 5 ''HVAC'', entry_on 2024 3 1 10 ''General'']
   \<and> mset [entry_on 2024 3 2 5 ''HVAC'', entry_on 2024 3 1 10 ''General'']
     = mset [entry_on 2024 3 1 10 ''General'', entry_on 2024 3 2 5 ''HVAC'']
   \<and> totalUsage_of [entry_on 2024 3 2 5 ''HVAC'', entry_on 2024 3 1 10 ''General''] = 15
   \<and> totalUsage_of [entry_on 2024 3 1 10 ''General'', entry_on 2024 3 2 5 ''HVAC''] = 15"
proof -
  let ?xs = "[entry_on 2024 3 1 10 ''General'', entry_on 2024 3 2 5 ''HVAC'']"
  let ?ys = "[entry_on 2024 3 2 5 ''HVAC'', entry_on 2024 3 1 10 ''General'']"
  have ex: "exact_sum ?xs" and ey: "exact_sum ?ys"
    by (simp_all add: exact_sum_def entry_on_def binary64_small_values not_overflows_small)
  have perm: "mset ?ys = mset ?xs"
    by (simp add: add_mset_commute)
  from aggregator_total [where xs = ?xs and ys = ?ys] ex ey perm
  have "totalUsage_of ?xs = (\<Sum>e\<leftarrow>?xs. usage e)" "totalUsage_of ?ys = totalUsage_of ?xs"
    by blast+
  then have "totalUsage_of ?xs = 15" "totalUsage_of ?ys = 15"
    by (simp_all add: entry_on_def)
  with ex ey perm show ?thesis
    by (simp only: simp_thms)
qed

section \<open>Properties of the bill calculator\<close>

lemma days_in_month_le_31: "days_in_month y m \<le> 31"
  by (simp add: days_in_month_def)

lemma new_Date_calendar: "calendar_date d \<Longrightarrow> new_Date d = Some d"
  using days_in_month_le_31 [of "yyyy d" "mm d"] by (simp add: calendar_date_def new_Date_def)

lemma new_Date_month_range:
  assumes "new_Date d = Some d'"
  shows "1 \<le> mm d' \<and> mm d' \<le> 12 \<and> yyyy d' = yyyy d"
proof (cases "dd d \<le> days_in_month (yyyy d) (mm d)")
  case True
  with assms show ?thesis
    by (auto simp: new_Date_def split: if_splits)
next
  case False
  with assms have range: "1 \<le> mm d" "mm d \<le> 12" "dd d \<le> 31"
    and d': "d' = d\<lparr>mm := mm d + 1, dd := dd d - days_in_month (yyyy d) (mm d)\<rparr>"
    by (auto simp: new_Date_def split: if_splits)
  from False range(3) have "days_in_month (yyyy d) (mm d) < 31"
    by simp
  then have "mm d \<noteq> 12"
    by (auto simp: days_in_month_def)
  with range d' show ?thesis
    by simp
qed

lemma in_month_calendar:
  "calendar_date (date e) \<Longrightarrow>
     in_month month year e \<longleftrightarrow> mm (date e) = month \<and> yyyy (date e) = year"
  by (simp add: in_month_def new_Date_calendar getMonth_def getFullYear_def)

lemma in_month_fields:
  "in_month month year e \<longleftrightarrow>
     (case new_Date (date e) of None \<Rightarrow> False | Some d \<Rightarrow> mm d = month \<and> yyyy d = year)"
  by (simp add: in_month_def getMonth_def getFullYear_def split: option.split)

lemma monthlyData_of_bad_month:
  assumes "month < 1 \<or> 12 < month"
  shows "monthlyData_of es month year = []"
proof -
  have "\<not> in_month month year e" for e
  proof (cases "new_Date (date e)")
    case None
    then show ?thesis by (simp add: in_month_def)
  next
    case (Some d')
    from new_Date_month_range [OF Some] assms show ?thesis
      by (auto simp: in_month_fields Some)
  qed
  then show ?thesis
    by (simp add: monthlyData_of_def)
qed

lemma calculate_bill_eq:
  "calculate_bill (Some uid) kv month year rate =
     (200, JObj [(''bill'', JObj
        [(''month'', JNum (of_int month)),
         (''year'', JNum (of_int year)),
         (''totalUsage'', JNum (totalUsage_of (monthlyData_of (kv uid) month year))),
         (''ratePerKwh'', JNum (case rate of None \<Rightarrow> binary64 (12 / 100) | Some r \<Rightarrow> r)),
         (''estimatedCost'', JNum (js_mul (totalUsage_of (monthlyData_of (kv uid) month year))
              (case rate of None \<Rightarrow> binary64 (12 / 100) | Some r \<Rightarrow> r))),
         (''entriesCount'', JNum (of_nat (length (monthlyData_of (kv uid) month year))))])])"
  by (simp add: calculate_bill_def Let_def c_json_def)

lemma binary64_rate: "binary64 (12 / 100) = 8646911284551352 / 2 ^ 56"
  by (subst binary64_eval [where k = "- 4"]) (simp_all add: round_half_even_def)

lemma binary64_cost: "binary64 (15 * (8646911284551352 / 2 ^ 56)) = 8106479329266892 / 2 ^ 52"
  by (subst binary64_eval [where k = 0]) (simp_all add: round_half_even_def)

lemma binary64_18_tenths: "binary64 (18 / 10) = 8106479329266893 / 2 ^ 52"
  by (subst binary64_eval [where k = 0]) (simp_all add: round_half_even_def)

lemma march_bill:
  assumes "monthlyData_of (kv uid) 3 2024 = [e1, e2]" and "usage e1 = 10" and "usage e2 = 5"
  shows "calculate_bill (Some uid) kv 3 2024 (Some (binary64 (12 / 100))) =
      c_json (JObj [(''bill'', JObj
        [(''month'', JNum 3),
         (''year'', JNum 2024),
         (''totalUsage'', JNum 15),
         (''ratePerKwh'', JNum (binary64 (12 / 100))),
         (''estimatedCost'', JNum (8106479329266892 / 2 ^ 52)),
         (''entriesCount'', JNum 2)])])"
proof -
  have total: "totalUsage_of [e1, e2] = 15"
    by (simp add: totalUsage_of_def js_add_def assms(2,3) binary64_small_values)
  have "js_mul 15 (binary64 (12 / 100)) = 8106479329266892 / 2 ^ 52"
    by (simp only: js_mul_def binary64_rate binary64_cost)
  then show ?thesis
    by (simp add: calculate_bill_eq assms(1) total c_json_def)
qed

lemma march_dates:
  "calendar_date \<lparr>yyyy = 2024, mm = 3, dd = 1\<rparr>" "calendar_date \<lparr>yyyy = 2024, mm = 3, dd = 15\<rparr>"
  "calendar_date \<lparr>yyyy = 2024, mm = 4, dd = 1\<rparr>"
  by (simp_all add: calendar_date_def days_in_month_def)

lemma march_kept:
  "monthlyData_of [entry_on 2024 3 1 10 ''General'', entry_on 2024 3 15 5 ''General'',
                   entry_on 2024 4 1 100 ''General''] 3 2024
     = [entry_on 2024 3 1 10 ''General'', entry_on 2024 3 15 5 ''General'']"
  "monthlyData_of [entry_on 2024 3 1 10 ''General'', entry_on 2024 3 15 5 ''General''] 3 2024
     = [entry_on 2024 3 1 10 ''General'', entry_on 2024 3 15 5 ''General'']"
  by (simp_all add: monthlyData_of_def in_month_calendar march_dates entry_on_def)

lemma march_total:
  "totalUsage_of [entry_on 2024 3 1 10 ''General'', entry_on 2024 3 15 5 ''General''] = 15"
  by (simp add: totalUsage_of_def js_add_def entry_on_def binary64_small_values)

lemma march_in_range:
  "sum_in_range [entry_on 2024 3 1 10 ''General'', entry_on 2024 3 15 5 ''General'']"
  by (simp add: sum_in_range_def entry_on_def js_add_def binary64_small_values overflows_def)

lemma march_cost_in_range: "\<not> overflows (15 * binary64 (12 / 100))"
  by (simp only: binary64_rate) (simp add: overflows_def)

text \<open>
  The two March 2024 entries of usage 10 and 5 at the double 0.12: the product of the
  doubles 15 and 0.12 lies halfway between two doubles and is rounded to the lower one,
  1.7999999999999998, which is neither the number 1.8 nor the double 1.8.
\<close>

theorem calculate_bill_literal_counterexample:
  "calculate_bill (Some ''user-1'')
     (\<lambda>u. [entry_on 2024 3 1 10 ''General'', entry_on 2024 3 15 5 ''General''])
     3 2024 (Some (binary64 (12 / 100)))
   = (200, JObj [(''bill'', JObj
        [(''month'', JNum 3),
         (''year'', JNum 2024),
         (''totalUsage'', JNum 15),
         (''ratePerKwh'', JNum (binary64 (12 / 100))),
         (''estimatedCost'', JNum (8106479329266892 / 2 ^ 52)),
         (''entriesCount'', JNum 2)])])
   \<and> (8106479329266892 / 2 ^ 52 :: real) \<noteq> 18 / 10
   \<and> (8106479329266892 / 2 ^ 52 :: real) \<noteq> binary64 (18 / 10)"
proof -
  have "calculate_bill (Some ''user-1'')
     (\<lambda>u. [entry_on 2024 3 1 10 ''General'', entry_on 2024 3 15 5 ''General''])
     3 2024 (Some (binary64 (12 / 100)))
   = c_json (JObj [(''bill'', JObj
        [(''month'', JNum 3),
         (''year'', JNum 2024),
         (''totalUsage'', JNum 15),
         (''ratePerKwh'', JNum (binary64 (12 / 100))),
         (''estimatedCost'', JNum (8106479329266892 / 2 ^ 52)),
         (''entriesCount'', JNum 2)])])"
    by (rule march_bill, simp only: march_kept, simp_all add: entry_on_def)
  moreover have "(8106479329266892 / 2 ^ 52 :: real) \<noteq> 18 / 10"
    by simp
  moreover have "(8106479329266892 / 2 ^ 52 :: real) \<noteq> binary64 (18 / 10)"
    by (simp only: binary64_18_tenths) simp
  ultimately show ?thesis
    by (simp only: c_json_def simp_thms)
qed

text \<open>
  Claim C4, as the code has it. The bill keeps exactly the entries whose date, as the runtime
  reads it, has the requested month and year (a calendar date is read as written);
  \<open>totalUsage\<close> is the sum of their usage in doubles, \<open>entriesCount\<close> their number and
  \<open>estimatedCost\<close> the product of \<open>totalUsage\<close> and the rate, rounded to the nearest double.
  The two March 2024 entries of usage 10 and 5 at rate 0.12 give 15, 1.7999999999999998 and
  2, and an entry of April 2024 does not change that bill.
\<close>

theorem calculate_bill_month:
  fixes kv :: kv_store and uid :: string and month year :: int and rate :: "real option"
    and kept :: "entry list" and ratePerKwh :: real
  defines "kept \<equiv> monthlyData_of (kv uid) month year"
  defines "ratePerKwh \<equiv> (case rate of None \<Rightarrow> binary64 (12 / 100) | Some r \<Rightarrow> r)"
  shows "(sum_in_range kept \<and> \<not> overflows (totalUsage_of kept * ratePerKwh) \<longrightarrow>
           calculate_bill (Some uid) kv month year rate =
             c_json (JObj [(''bill'', JObj
               [(''month'', JNum (of_int month)),
                (''year'', JNum (of_int year)),
                (''totalUsage'', JNum (totalUsage_of kept)),
                (''ratePerKwh'', JNum ratePerKwh),
                (''estimatedCost'', JNum (binary64 (totalUsage_of kept * ratePerKwh))),
                (''entriesCount'', JNum (of_nat (length kept)))])]))
   \<and> kept = filter (\<lambda>e. case new_Date (date e) of
                            None \<Rightarrow> False
                          | Some d \<Rightarrow> mm d = month \<and> yyyy d = year) (kv uid)
   \<and> (calendar_date (date e) \<longrightarrow>
        (e \<in> set kept \<longleftrightarrow> e \<in> set (kv uid) \<and> mm (date e) = month \<and> yyyy (date e) = year))
   \<and> calculate_bill (Some uid)
        (\<lambda>u. [\<lparr>userId = u1, date = \<lparr>yyyy = 2024, mm = 3, dd = 1\<rparr>, usage = 10,
                 appliance = a1, cost = c1, timestamp = t1\<rparr>,
               \<lparr>userId = u2, date = \<lparr>yyyy = 2024, mm = 3, dd = 15\<rparr>, usage = 5,
                 appliance = a2, cost = c2, timestamp = t2\<rparr>])
        3 2024 (Some (binary64 (12 / 100)))
      = c_json (JObj [(''bill'', JObj
        [(''month'', JNum 3),
         (''year'', JNum 2024),
         (''totalUsage'', JNum 15),
         (''ratePerKwh'', JNum (binary64 (12 / 100))),
         (''estimatedCost'', JNum (8106479329266892 / 2 ^ 52)),
         (''entriesCount'', JNum 2)])])
   \<and> calculate_bill (Some uid)
        (\<lambda>u. [\<lparr>userId = u1, date = \<lparr>yyyy = 2024, mm = 3, dd = 1\<rparr>, usage = 10,
                 appliance = a1, cost = c1, timestamp = t1\<rparr>,
               \<lparr>userId = u2, date = \<lparr>yyyy = 2024, mm = 3, dd = 15\<rparr>, usage = 5,
                 appliance = a2, cost = c2, timestamp = t2\<rparr>,
               \<lparr>userId = u3, date = \<lparr>yyyy = 2024, mm = 4, dd = 1\<rparr>, usage = 100,
                 appliance = a3, cost = c3, timestamp = t3\<rparr>])
        3 2024 (Some (binary64 (12 / 100)))
      = c_json (JObj [(''bill'', JObj
        [(''month'', JNum 3),
         (''year'', JNum 2024),
         (''totalUsage'', JNum 15),
         (''ratePerKwh'', JNum (binary64 (12 / 100))),
         (''estimatedCost'', JNum (8106479329266892 / 2 ^ 52)),
         (''entriesCount'', JNum 2)])])"
proof -
  have general: "calculate_bill (Some uid) kv month year rate =
      c_json (JObj [(''bill'', JObj
        [(''month'', JNum (of_int month)),
         (''year'', JNum (of_int year)),
         (''totalUsage'', JNum (totalUsage_of kept)),
         (''ratePerKwh'', JNum ratePerKwh),
         (''estimatedCost'', JNum (binary64 (totalUsage_of kept * ratePerKwh))),
         (''entriesCount'', JNum (of_nat (length kept)))])])"
    by (simp add: calculate_bill_eq c_json_def kept_def ratePerKwh_def js_mul_def)
  have filtered: "kept = filter (\<lambda>e. case new_Date (date e) of
                            None \<Rightarrow> False
                          | Some d \<Rightarrow> mm d = month \<and> yyyy d = year) (kv uid)"
    by (simp add: kept_def monthlyData_of_def in_month_fields [abs_def])
  have member: "calendar_date (date e) \<longrightarrow>
      (e \<in> set kept \<longleftrightarrow> e \<in> set (kv uid) \<and> mm (date e) = month \<and> yyyy (date e) = year)"
    using in_month_calendar [of e month year] by (auto simp: kept_def monthlyData_of_def)
  have march: "calculate_bill (Some uid)
        (\<lambda>u. [\<lparr>userId = u1, date = \<lparr>yyyy = 2024, mm = 3, dd = 1\<rparr>, usage = 10,
                 appliance = a1, cost = c1, timestamp = t1\<rparr>,
               \<lparr>userId = u2, date = \<lparr>yyyy = 2024, mm = 3, dd = 15\<rparr>, usage = 5,
                 appliance = a2, cost = c2, timestamp = t2\<rparr>])
        3 2024 (Some (binary64 (12 / 100)))
      = c_json (JObj [(''bill'', JObj
        [(''month'', JNum 3),
         (''year'', JNum 2024),
         (''totalUsage'', JNum 15),
         (''ratePerKwh'', JNum (binary64 (12 / 100))),
         (''estimatedCost'', JNum (8106479329266892 / 2 ^ 52)),
         (''entriesCount'', JNum 2)])])"
    by (rule march_bill, simp add: monthlyData_of_def in_month_calendar march_dates, simp_all)
  have april: "calculate_bill (Some uid)
        (\<lambda>u. [\<lparr>userId = u1, date = \<lparr>yyyy = 2024, mm = 3, dd = 1\<rparr>, usage = 10,
                 appliance = a1, cost = c1, timestamp = t1\<rparr>,
               \<lparr>userId = u2, date = \<lparr>yyyy = 2024, mm = 3, dd = 15\<rparr>, usage = 5,
                 appliance = a2, cost = c2, timestamp = t2\<rparr>,
               \<lparr>userId = u3, date = \<lparr>yyyy = 2024, mm = 4, dd = 1\<rparr>, usage = 100,
                 appliance = a3, cost = c3, timestamp = t3\<rparr>])
        3 2024 (Some (binary64 (12 / 100)))
      = c_json (JObj [(''bill'', JObj
        [(''month'', JNum 3),
         (''year'', JNum 2024),
         (''totalUsage'', JNum 15),
         (''ratePerKwh'', JNum (binary64 (12 / 100))),
         (''estimatedCost'', JNum (8106479329266892 / 2 ^ 52)),
         (''entriesCount'', JNum 2)])])"
    by (rule march_bill, simp add: monthlyData_of_def in_month_calendar march_dates, simp_all)
  from general have guarded:
    "sum_in_range kept \<and> \<not> overflows (totalUsage_of kept * ratePerKwh) \<longrightarrow>
       calculate_bill (Some uid) kv month year rate =
         c_json (JObj [(''bill'', JObj
           [(''month'', JNum (of_int month)),
            (''year'', JNum (of_int year)),
            (''totalUsage'', JNum (totalUsage_of kept)),
            (''ratePerKwh'', JNum ratePerKwh),
            (''estimatedCost'', JNum (binary64 (totalUsage_of kept * ratePerKwh))),
            (''entriesCount'', JNum (of_nat (length kept)))])])"
    by (rule impI)
  from guarded filtered member march april show ?thesis
    by (intro conjI)
qed

theorem calculate_bill_month_witness:
  "sum_in_range (monthlyData_of
       [entry_on 2024 3 1 10 ''General'', entry_on 2024 3 15 5 ''General'',
        entry_on 2024 4 1 100 ''General''] 3 2024)
   \<and> \<not> overflows (totalUsage_of (monthlyData_of
       [entry_on 2024 3 1 10 ''General'', entry_on 2024 3 15 5 ''General'',
        entry_on 2024 4 1 100 ''General''] 3 2024) * binary64 (12 / 100))
   \<and> calendar_date (date (entry_on 2024 4 1 100 ''General''))
   \<and> entry_on 2024 4 1 100 ''General'' \<notin> set (monthlyData_of
       [entry_on 2024 3 1 10 ''General'', entry_on 2024 3 15 5 ''General'',
        entry_on 2024 4 1 100 ''General''] 3 2024)
   \<and> calculate_bill (Some ''user-1'')
       (\<lambda>u. [entry_on 2024 3 1 10 ''General'', entry_on 2024 3 15 5 ''General'',
              entry_on 2024 4 1 100 ''General'']) 3 2024 (Some (binary64 (12 / 100)))
     = c_json (JObj [(''bill'', JObj
        [(''month'', JNum 3),
         (''year'', JNum 2024),
         (''totalUsage'', JNum 15),
         (''ratePerKwh'', JNum (8646911284551352 / 2 ^ 56)),
         (''estimatedCost'', JNum (8106479329266892 / 2 ^ 52)),
         (''entriesCount'', JNum 2)])])"
proof -
  let ?kv = "\<lambda>u::string. [entry_on 2024 3 1 10 ''General'', entry_on 2024 3 15 5 ''General'',
              entry_on 2024 4 1 100 ''General'']"
  let ?kept = "monthlyData_of (?kv ''user-1'') 3 2024"
  have range: "sum_in_range ?kept" "\<not> overflows (totalUsage_of ?kept * binary64 (12 / 100))"
    by (simp_all only: march_kept march_total march_in_range march_cost_in_range simp_thms)
  have april: "calendar_date (date (entry_on 2024 4 1 100 ''General''))"
    by (simp add: entry_on_def march_dates)
  note bill = calculate_bill_month [where kv = ?kv and uid = "''user-1''" and month = 3
      and year = 2024 and rate = "Some (binary64 (12 / 100))"
      and e = "entry_on 2024 4 1 100 ''General''"]
  have "calculate_bill (Some ''user-1'') ?kv 3 2024 (Some (binary64 (12 / 100))) =
      c_json (JObj [(''bill'', JObj
        [(''month'', JNum (of_int 3)),
         (''year'', JNum (of_int 2024)),
         (''totalUsage'', JNum (totalUsage_of ?kept)),
         (''ratePerKwh'', JNum (binary64 (12 / 100))),
         (''estimatedCost'', JNum (binary64 (totalUsage_of ?kept * binary64 (12 / 100)))),
         (''entriesCount'', JNum (of_nat (length ?kept)))])])"
    by (rule bill [THEN conjunct1, THEN mp, simplified option.case]) (intro conjI range)
  then have response: "calculate_bill (Some ''user-1'') ?kv 3 2024 (Some (binary64 (12 / 100))) =
      c_json (JObj [(''bill'', JObj
        [(''month'', JNum 3),
         (''year'', JNum 2024),
         (''totalUsage'', JNum 15),
         (''ratePerKwh'', JNum (8646911284551352 / 2 ^ 56)),
         (''estimatedCost'', JNum (8106479329266892 / 2 ^ 52)),
         (''entriesCount'', JNum 2)])])"
    by (simp only: march_kept march_total binary64_rate binary64_cost) simp
  have "entry_on 2024 4 1 100 ''General'' \<notin> set ?kept"
    using bill [THEN conjunct2, THEN conjunct2, THEN conjunct1, THEN mp, OF april]
    by (simp add: entry_on_def)
  with range april response show ?thesis
    by (intro conjI)
qed

text \<open>
  The handler does not validate \<open>month\<close> or \<open>ratePerKwh\<close>: month 13 is answered with status
  200 and an empty bill, and a negative rate with status 200 and a negative cost.
\<close>

theorem calculate_bill_invalid_input_counterexample:
  "calculate_bill (Some ''user-1'') (\<lambda>u. [entry_on 2024 3 1 10 ''General''])
     13 2024 (Some (12 / 100))
   = (200, JObj [(''bill'', JObj
        [(''month'', JNum 13), (''year'', JNum 2024), (''totalUsage'', JNum 0),
         (''ratePerKwh'', JNum (12 / 100)), (''estimatedCost'', JNum 0),
         (''entriesCount'', JNum 0)])])
   \<and> calculate_bill (Some ''user-1'') (\<lambda>u. [entry_on 2024 3 1 10 ''General''])
     3 2024 (Some (- 1 / 2))
   = (200, JObj [(''bill'', JObj
        [(''month'', JNum 3), (''year'', JNum 2024), (''totalUsage'', JNum 10),
         (''ratePerKwh'', JNum (- 1 / 2)), (''estimatedCost'', JNum (- 5)),
         (''entriesCount'', JNum 1)])])"
proof -
  have kept: "monthlyData_of [entry_on 2024 3 1 10 ''General''] 3 2024
      = [entry_on 2024 3 1 10 ''General'']"
    by (simp add: monthlyData_of_def in_month_calendar march_dates entry_on_def)
  have total: "totalUsage_of [entry_on 2024 3 1 10 ''General''] = 10"
    by (simp add: totalUsage_of_def js_add_def entry_on_def binary64_small_values)
  show ?thesis
    by (simp add: calculate_bill_eq monthlyData_of_bad_month kept total totalUsage_of_Nil
        js_mul_def binary64_0 binary64_small_values)
qed

text \<open>
  Claim C5, as the code has it. A request whose month is outside 1 to 12 or whose rate is
  not positive is not rejected: it is answered with status 200 and the bill that the
  filter, the sum and the product give. When the month is outside 1 to 12 and the stored
  dates are calendar dates, no entry matches and the bill is zero.
\<close>

theorem calculate_bill_no_validation:
  fixes rate :: "real option" and ratePerKwh :: real
  defines "ratePerKwh \<equiv> (case rate of None \<Rightarrow> binary64 (12 / 100) | Some r \<Rightarrow> r)"
  assumes "month < 1 \<or> 12 < month \<or> ratePerKwh \<le> 0"
  shows "calculate_bill (Some uid) kv month year rate =
           c_json (JObj [(''bill'', JObj
             [(''month'', JNum (of_int month)),
              (''year'', JNum (of_int year)),
              (''totalUsage'', JNum (totalUsage_of (monthlyData_of (kv uid) month year))),
              (''ratePerKwh'', JNum ratePerKwh),
              (''estimatedCost'',
                 JNum (js_mul (totalUsage_of (monthlyData_of (kv uid) month year)) ratePerKwh)),
              (''entriesCount'', JNum (of_nat (length (monthlyData_of (kv uid) month year))))])])
         \<and> ((month < 1 \<or> 12 < month)
              \<and> (\<forall>e \<in> set (kv uid). 1 \<le> mm (date e) \<and> mm (date e) \<le> 12)
            \<longrightarrow> calculate_bill (Some uid) kv month year rate =
              c_json (JObj [(''bill'', JObj
                [(''month'', JNum (of_int month)),
                 (''year'', JNum (of_int year)),
                 (''totalUsage'', JNum 0),
                 (''ratePerKwh'', JNum ratePerKwh),
                 (''estimatedCost'', JNum 0),
                 (''entriesCount'', JNum 0)])]))"
  by (simp add: calculate_bill_eq c_json_def monthlyData_of_bad_month ratePerKwh_def
      totalUsage_of_Nil js_mul_def binary64_0)

theorem calculate_bill_no_validation_witness:
  "((13::int) < 1 \<or> (12::int) < 13 \<or> (- 1 / 2 :: real) \<le> 0)
   \<and> 1 \<le> mm (date (entry_on 2024 3 1 10 ''General''))
   \<and> mm (date (entry_on 2024 3 1 10 ''General'')) \<le> 12
   \<and> calculate_bill (Some ''user-1'') (\<lambda>u. [entry_on 2024 3 1 10 ''General''])
         13 2024 (Some (- 1 / 2))
       = c_json (JObj [(''bill'', JObj
           [(''month'', JNum 13), (''year'', JNum 2024), (''totalUsage'', JNum 0),
            (''ratePerKwh'', JNum (- 1 / 2)), (''estimatedCost'', JNum 0),
            (''entriesCount'', JNum 0)])])"
  using calculate_bill_no_validation [where month = 13 and rate = "Some (- 1 / 2)"
      and uid = "''user-1''" and year = 2024
      and kv = "\<lambda>u. [entry_on 2024 3 1 10 ''General'']", THEN conjunct2]
  by (simp add: entry_on_def)

section \<open>The forecaster on too few entries\<close>

text \<open>
  Claim C3, evaluated on the code. With fewer than 7 entries the handler answers with status
  200 and the message; the null marker of the payload is under the key \<open>prediction\<close>, and the
  payload has no key \<open>predictions\<close>.
\<close>

theorem predict_usage_insufficient:
  assumes "length (kv uid) < 7"
  shows "predict_usage (Some uid) kv today =
           c_json (JObj [(''prediction'', JNull),
                         (''message'', JStr ''Need at least 7 days of data for prediction'')])
         \<and> map_of [(''prediction'', JNull),
                    (''message'', JStr ''Need at least 7 days of data for prediction'')]
             ''predictions'' = None"
  using assms by (simp add: predict_usage_def c_json_def)

theorem predict_usage_insufficient_witness:
  "length ([] :: entry list) < 7
   \<and> predict_usage (Some ''user-1'') (\<lambda>u. []) \<lparr>yyyy = 2024, mm = 3, dd = 1\<rparr> =
       (200, JObj [(''prediction'', JNull),
                   (''message'', JStr ''Need at least 7 days of data for prediction'')])"
  using predict_usage_insufficient [where kv = "\<lambda>u. []" and uid = "''user-1''"
      and today = "\<lparr>yyyy = 2024, mm = 3, dd = 1\<rparr>"]
  by (simp add: c_json_def)

section \<open>Properties of the tip engine\<close>

text \<open>
  Claim C10. For a user with no entries the average is 0, the per-appliance object is empty,
  the dominant appliance is the default \<open>General\<close>, and the tips are exactly the two generic
  ones: the solar-panels tip, then the smart-power-strips tip.
\<close>

theorem tips_of_no_entries:
  "avgDailyUsage_of [] = 0
   \<and> applianceUsage_of [] = []
   \<and> topAppliance_of (applianceUsage_of []) = ''General''
   \<and> tips_of [] =
       [''Great job maintaining low energy usage! Consider solar panels for even greater savings.'',
        ''Smart power strips can help eliminate standby power consumption.'']
   \<and> energy_tips (Some uid) (\<lambda>u. []) =
       c_json (JObj [(''tips'', JArr
         [JStr ''Great job maintaining low energy usage! Consider solar panels for even greater savings.'',
          JStr ''Smart power strips can help eliminate standby power consumption.''])])"
  by (simp add: avgDailyUsage_of_def totalUsage_of_def applianceUsage_of_def topAppliance_of_def
      tips_of_def energy_tips_def tip_solar_def tip_power_strips_def Let_def js_div_def
      binary64_0)




section \<open>Properties of the forecaster\<close>

lemma regression_sums_closed:
  "regression_sums xs i (a, b, c, d) =
     (a + (\<Sum>k<length xs. real (i + k)),
      b + (\<Sum>k<length xs. usage (xs ! k)),
      c + (\<Sum>k<length xs. real (i + k) * usage (xs ! k)),
      d + (\<Sum>k<length xs. real (i + k) * real (i + k)))"
proof (induction xs arbitrary: i a b c d)
  case Nil
  then show ?case by simp
next
  case (Cons e es)
  show ?case
    by (simp add: Cons.IH sum.lessThan_Suc_shift Let_def ac_simps del: sum.lessThan_Suc)
qed

lemma sum_index: "(\<Sum>k<n. real k) = real n * (real n - 1) / 2"
  by (induction n) (simp_all add: field_simps)

lemma sum_index_sq: "(\<Sum>k<n. real k * real k) = real n * (real n - 1) * (2 * real n - 1) / 6"
  by (induction n) (simp_all add: field_simps)

lemma denominator_closed:
  "real n * (\<Sum>k<n. real k * real k) - (\<Sum>k<n. real k) * (\<Sum>k<n. real k)
     = real n * real n * (real n - 1) * (real n + 1) / 12"
  by (simp add: sum_index sum_index_sq field_simps)

lemma denominator_pos:
  assumes "2 \<le> n"
  shows "0 < real n * (\<Sum>k<n. real k * real k) - (\<Sum>k<n. real k) * (\<Sum>k<n. real k)"
proof -
  have "0 < real n" "0 < real n - 1" "0 < real n + 1"
    using assms by simp_all
  then have "0 < real n * real n * (real n - 1) * (real n + 1) / 12"
    by simp
  then show ?thesis
    by (simp only: denominator_closed)
qed

lemma length_slice_last: "length (slice_last k xs) = min k (length xs)"
  by (simp add: slice_last_def)

lemma length_sortedData_of: "length (sortedData_of es) = min 30 (length es)"
  by (simp add: sortedData_of_def length_slice_last)

lemma regression_sums_0:
  "regression_sums xs 0 (0, 0, 0, 0) =
     ((\<Sum>k<length xs. real k),
      (\<Sum>k<length xs. usage (xs ! k)),
      (\<Sum>k<length xs. real k * usage (xs ! k)),
      (\<Sum>k<length xs. real k * real k))"
  by (simp add: regression_sums_closed)






lemmas date_defs = getTime_def MakeDay_def DayFromYear_def days_in_month_def is_leap_def msPerDay_def
  upto.simps[of 1]


lemma sortedData_of_rising_week:
  "sortedData_of rising_week =
     [entry_on 2024 3 1 1 ''General'', entry_on 2024 3 2 2 ''HVAC'',
      entry_on 2024 3 3 3 ''General'', entry_on 2024 3 4 4 ''General'',
      entry_on 2024 3 5 5 ''General'', entry_on 2024 3 6 6 ''General'',
      entry_on 2024 3 7 7 ''General'']"
  by (simp add: sortedData_of_def slice_last_def rising_week_def entry_on_def date_defs)


lemma regression_sums_rising_week:
  "regression_sums (sortedData_of rising_week) 0 (0, 0, 0, 0) = (21, 28, 112, 91)"
  by (simp add: sortedData_of_rising_week entry_on_def)




text \<open>
  Claim C9. With at least 7 entries the sorted and truncated data has between 7 and 30
  entries, and the denominator \<open>n * sumXX - sumX * sumX\<close> of the slope is strictly positive,
  so the unguarded division never divides by zero.
\<close>

theorem regression_denominator_positive:
  assumes "7 \<le> length usageData"
  shows "7 \<le> length (sortedData_of usageData) \<and> length (sortedData_of usageData) \<le> 30
         \<and> (case regression_sums (sortedData_of usageData) 0 (0, 0, 0, 0) of
               (sumX, sumY, sumXY, sumXX) \<Rightarrow>
                 0 < real (length (sortedData_of usageData)) * sumXX - sumX * sumX)"
proof -
  have len: "7 \<le> length (sortedData_of usageData)" "length (sortedData_of usageData) \<le> 30"
    using assms by (simp_all add: length_sortedData_of)
  then have "2 \<le> length (sortedData_of usageData)"
    by simp
  from denominator_pos [OF this] show ?thesis
    using len by (simp add: regression_sums_0)
qed

theorem regression_denominator_positive_witness:
  "7 \<le> length rising_week
   \<and> length (sortedData_of rising_week) = 7
   \<and> regression_sums (sortedData_of rising_week) 0 (0, 0, 0, 0) = (21, 28, 112, 91)
   \<and> (0 :: real) < 7 * 91 - 21 * 21"
proof -
  have enough: "7 \<le> length rising_week"
    by (simp add: rising_week_def)
  have len: "length (sortedData_of rising_week) = 7"
    by (simp add: sortedData_of_rising_week)
  from regression_denominator_positive [OF enough] show ?thesis
    using enough len by (simp add: regression_sums_rising_week)
qed






section \<open>The dominant appliance\<close>

lemma map_of_obj_set: "map_of (obj_set ps k v) = (map_of ps)(k \<mapsto> v)"
  by (induction ps) (auto simp: fun_eq_iff)

lemma keys_obj_set:
  "map fst (obj_set ps k v) = (if k \<in> fst ` set ps then map fst ps else map fst ps @ [k])"
  by (induction ps) auto

lemma applianceUsage_of_snoc:
  "applianceUsage_of (es @ [e]) =
     obj_set (applianceUsage_of es) (appliance e)
       (js_add (or_zero (map_of (applianceUsage_of es) (appliance e))) (usage e))"
  by (simp add: applianceUsage_of_def)

lemma categories_snoc:
  "categories (es @ [e]) =
     (if appliance e \<in> appliance ` set es then categories es else categories es @ [appliance e])"
  by (simp add: categories_def)

lemma set_categories: "set (categories es) = appliance ` set es"
  by (simp add: categories_def)

lemma keys_applianceUsage_of: "map fst (applianceUsage_of es) = categories es"
proof (induction es rule: rev_induct)
  case Nil
  show ?case by (simp add: applianceUsage_of_def categories_def)
next
  case (snoc e es)
  have "fst ` set (applianceUsage_of es) = appliance ` set es"
    using snoc.IH set_categories [of es] by (metis set_map)
  then show ?case
    by (simp add: applianceUsage_of_snoc keys_obj_set categories_snoc snoc.IH)
qed

lemma category_usage_snoc:
  "category_usage (es @ [e]) k =
     (if appliance e = k then js_add (category_usage es k) (usage e) else category_usage es k)"
  by (simp add: category_usage_def totalUsage_of_def)

lemma category_usage_absent: "k \<notin> appliance ` set es \<Longrightarrow> category_usage es k = 0"
proof -
  assume "k \<notin> appliance ` set es"
  then have "filter (\<lambda>e. appliance e = k) es = []"
    by (auto simp: filter_empty_conv)
  then show ?thesis
    by (simp add: category_usage_def totalUsage_of_def)
qed

lemma values_applianceUsage_of:
  "map_of (applianceUsage_of es) k =
     (if k \<in> appliance ` set es then Some (category_usage es k) else None)"
proof (induction es rule: rev_induct)
  case Nil
  show ?case by (simp add: applianceUsage_of_def)
next
  case (snoc e es)
  show ?case
  proof (cases "appliance e = k")
    case True
    then show ?thesis
      by (simp add: applianceUsage_of_snoc map_of_obj_set snoc.IH category_usage_snoc
          or_zero_def category_usage_absent)
  next
    case False
    then show ?thesis
      by (auto simp: applianceUsage_of_snoc map_of_obj_set snoc.IH category_usage_snoc)
  qed
qed

lemma foldl_keep_larger:
  fixes v :: "'a \<Rightarrow> real"
  defines "r \<equiv> \<lambda>a ks. foldl (\<lambda>a b. if v a > v b then a else b) a ks"
  shows "r a ks \<in> set (a # ks) \<and> (\<forall>k \<in> set (a # ks). v k \<le> v (r a ks))
         \<and> last (filter (\<lambda>k. v (r a ks) \<le> v k) (a # ks)) = r a ks"
proof (induction ks rule: rev_induct)
  case Nil
  show ?case by (simp add: r_def)
next
  case (snoc b ks)
  have step: "r a (ks @ [b]) = (if v (r a ks) > v b then r a ks else b)"
    by (simp add: r_def)
  from snoc have mem: "r a ks \<in> set (a # ks)"
    and top: "\<forall>k \<in> set (a # ks). v k \<le> v (r a ks)"
    and lst: "last (filter (\<lambda>k. v (r a ks) \<le> v k) (a # ks)) = r a ks"
    by blast+
  show ?case
  proof (cases "v (r a ks) > v b")
    case True
    with step have eq: "r a (ks @ [b]) = r a ks" by simp
    have "filter (\<lambda>k. v (r a ks) \<le> v k) (a # ks @ [b])
        = filter (\<lambda>k. v (r a ks) \<le> v k) (a # ks)"
      using True by simp
    moreover have "\<forall>k \<in> set (a # ks @ [b]). v k \<le> v (r a ks)"
      using top True by simp
    moreover have "r a ks \<in> set (a # ks @ [b])"
      using mem by auto
    ultimately show ?thesis
      unfolding eq using lst by (simp only:)
  next
    case False
    with step have eq: "r a (ks @ [b]) = b" by simp
    have "\<forall>k \<in> set (a # ks). v k \<le> v b"
    proof
      fix k assume "k \<in> set (a # ks)"
      with top have "v k \<le> v (r a ks)" by blast
      with False show "v k \<le> v b" by simp
    qed
    then have "\<forall>k \<in> set (a # ks @ [b]). v k \<le> v b"
      by simp
    moreover have "last (filter (\<lambda>k. v b \<le> v k) (a # ks @ [b])) = b"
    proof -
      have "filter (\<lambda>k. v b \<le> v k) (a # ks @ [b]) = filter (\<lambda>k. v b \<le> v k) (a # ks) @ [b]"
        by simp
      then show ?thesis
        by (simp only: last_snoc)
    qed
    moreover have "b \<in> set (a # ks @ [b])"
      by simp
    ultimately show ?thesis
      unfolding eq by blast
  qed
qed

lemma foldl_keep_larger_last:
  fixes v :: "'a \<Rightarrow> real"
  shows "foldl (\<lambda>a b. if v a > v b then a else b) a ks =
           last (filter (\<lambda>k. \<forall>k' \<in> set (a # ks). v k' \<le> v k) (a # ks))"
proof -
  let ?r = "foldl (\<lambda>a b. if v a > v b then a else b) a ks"
  from foldl_keep_larger [of v a ks]
  have mem: "?r \<in> set (a # ks)" and top: "\<forall>k \<in> set (a # ks). v k \<le> v ?r"
    and lst: "last (filter (\<lambda>k. v ?r \<le> v k) (a # ks)) = ?r"
    by blast+
  have "(\<forall>k' \<in> set (a # ks). v k' \<le> v k) \<longleftrightarrow> v ?r \<le> v k" for k
    using mem top by (meson order_trans)
  then have "filter (\<lambda>k. \<forall>k' \<in> set (a # ks). v k' \<le> v k) (a # ks)
      = filter (\<lambda>k. v ?r \<le> v k) (a # ks)"
    by simp
  with lst show ?thesis
    by simp
qed

lemma foldl_agree:
  assumes "a \<in> S" and "set ks \<subseteq> S"
    and "\<And>x y. x \<in> S \<Longrightarrow> y \<in> S \<Longrightarrow> g x y = f x y"
    and "\<And>x y. x \<in> S \<Longrightarrow> y \<in> S \<Longrightarrow> f x y \<in> S"
  shows "foldl g a ks = foldl f a ks"
  using assms(1,2)
proof (induction ks arbitrary: a)
  case Nil
  show ?case by simp
next
  case (Cons k ks)
  then have "k \<in> S" "set ks \<subseteq> S" by simp_all
  with Cons.prems(1) have "g a k = f a k" "f a k \<in> S"
    using assms(3,4) by simp_all
  with Cons.IH [of "f a k"] \<open>set ks \<subseteq> S\<close> show ?case
    by simp
qed

lemma largest_categories_alt:
  "largest_categories es =
     filter (\<lambda>k. \<forall>k' \<in> set (categories es). category_usage es k' \<le> category_usage es k)
       (categories es)"
  by (simp add: largest_categories_def list_all_iff)

lemma topAppliance_of_fold:
  "topAppliance_of (applianceUsage_of es) =
     foldl (\<lambda>a b. if js_gt (map_of (applianceUsage_of es) a) (map_of (applianceUsage_of es) b)
                   then a else b)
       ''General'' (categories es)"
  by (simp add: topAppliance_of_def keys_applianceUsage_of)

lemma js_gt_categories:
  assumes "x \<in> set (categories es)" and "y \<in> set (categories es)"
  shows "(if js_gt (map_of (applianceUsage_of es) x) (map_of (applianceUsage_of es) y)
          then x else y)
       = (if category_usage es x > category_usage es y then x else y)"
  using assms by (simp add: values_applianceUsage_of set_categories js_gt_def)

lemma topAppliance_is_last_largest:
  "topAppliance_of (applianceUsage_of es) = dominant_last_encountered es"
proof (cases "categories es")
  case Nil
  then show ?thesis
    by (simp add: topAppliance_of_fold dominant_last_encountered_def largest_categories_def)
next
  case (Cons c cs)
  let ?g = "\<lambda>a b. if js_gt (map_of (applianceUsage_of es) a) (map_of (applianceUsage_of es) b)
                   then a else b"
  let ?f = "\<lambda>a b. if category_usage es a > category_usage es b then a else b"
  let ?S = "set (categories es)"
  let ?P = "\<lambda>k. \<forall>k' \<in> ?S. category_usage es k' \<le> category_usage es k"
  have agree: "?g x y = ?f x y" if "x \<in> ?S" "y \<in> ?S" for x y
    using that by (rule js_gt_categories)
  have closed: "?f x y \<in> ?S" if "x \<in> ?S" "y \<in> ?S" for x y
    using that by simp
  have "\<exists>a ks. foldl ?g ''General'' (categories es) = foldl ?f a ks \<and> set (a # ks) = ?S
      \<and> last (filter ?P (a # ks)) = last (filter ?P (categories es))"
  proof (cases "''General'' \<in> ?S")
    case True
    have "foldl ?g ''General'' (categories es) = foldl ?f ''General'' (categories es)"
      using foldl_agree [where S = ?S and g = ?g and f = ?f, OF True subset_refl agree closed] .
    moreover have "set (''General'' # categories es) = ?S"
      using True by auto
    moreover have "last (filter ?P (''General'' # categories es))
        = last (filter ?P (categories es))"
    proof (cases "?P ''General''")
      case holds: True
      with True have "''General'' \<in> set (filter ?P (categories es))"
        by simp
      then have "filter ?P (categories es) \<noteq> []"
        by fastforce
      with holds show ?thesis
        by simp
    next
      case False
      then have "filter ?P (''General'' # categories es) = filter ?P (categories es)"
        by (simp only: filter.simps if_False)
      then show ?thesis
        by (simp only:)
    qed
    ultimately show ?thesis
      by (intro exI conjI)
  next
    case False
    then have "map_of (applianceUsage_of es) ''General'' = None"
      by (simp add: values_applianceUsage_of set_categories)
    then have "?g ''General'' c = c"
      by (simp add: js_gt_def)
    then have "foldl ?g ''General'' (categories es) = foldl ?g c cs"
      by (simp add: Cons)
    moreover have "c \<in> ?S" "set cs \<subseteq> ?S"
      using Cons by auto
    then have "foldl ?g c cs = foldl ?f c cs"
      using foldl_agree [where S = ?S and g = ?g and f = ?f, OF _ _ agree closed] by blast
    ultimately have "foldl ?g ''General'' (categories es) = foldl ?f c cs"
      by (simp only:)
    moreover have "set (c # cs) = ?S"
      by (simp only: Cons)
    moreover have "last (filter ?P (c # cs)) = last (filter ?P (categories es))"
      by (simp only: Cons)
    ultimately show ?thesis
      by (intro exI conjI)
  qed
  then obtain a ks where fold: "foldl ?g ''General'' (categories es) = foldl ?f a ks"
    and S: "set (a # ks) = ?S"
    and lastP: "last (filter ?P (a # ks)) = last (filter ?P (categories es))"
    by blast
  from foldl_keep_larger [of "category_usage es" a ks]
  have mem: "foldl ?f a ks \<in> ?S" and top: "?P (foldl ?f a ks)"
    unfolding S by blast+
  have "foldl ?f a ks = last (filter ?P (a # ks))"
    using foldl_keep_larger_last [of "category_usage es" a ks] unfolding S .
  with fold lastP have top_eq:
    "topAppliance_of (applianceUsage_of es) = last (filter ?P (categories es))"
    by (simp only: topAppliance_of_fold)
  from mem top have "foldl ?f a ks \<in> set (filter ?P (categories es))"
    by simp
  then have "filter ?P (categories es) \<noteq> []"
    by fastforce
  then obtain k ks' where "largest_categories es = k # ks'"
    by (auto simp: largest_categories_alt neq_Nil_conv)
  then have "dominant_last_encountered es = last (filter ?P (categories es))"
    by (simp add: dominant_last_encountered_def flip: largest_categories_alt)
  with top_eq show ?thesis
    by simp
qed

lemma plain_labels: "plain_label ''HVAC''" "plain_label ''Fridge''"
  by (simp_all add: plain_label_def digit_label_def prototype_member_def)

text \<open>
  Two categories of equal summed usage: \<open>HVAC\<close> is encountered first, and the engine takes
  \<open>Fridge\<close>, the one encountered last, so no \<open>HVAC\<close> tip is given.
\<close>

theorem tips_tie_break_counterexample:
  "categories [entry_on 2024 3 1 10 ''HVAC'', entry_on 2024 3 1 10 ''Fridge'']
     = [''HVAC'', ''Fridge'']
   \<and> category_usage [entry_on 2024 3 1 10 ''HVAC'', entry_on 2024 3 1 10 ''Fridge''] ''HVAC''
     = 10
   \<and> category_usage [entry_on 2024 3 1 10 ''HVAC'', entry_on 2024 3 1 10 ''Fridge''] ''Fridge''
     = 10
   \<and> dominant_first_encountered [entry_on 2024 3 1 10 ''HVAC'', entry_on 2024 3 1 10 ''Fridge'']
     = ''HVAC''
   \<and> topAppliance_of
       (applianceUsage_of [entry_on 2024 3 1 10 ''HVAC'', entry_on 2024 3 1 10 ''Fridge''])
     = ''Fridge''
   \<and> tips_of [entry_on 2024 3 1 10 ''HVAC'', entry_on 2024 3 1 10 ''Fridge'']
     = [tip_solar, tip_power_strips]
   \<and> tip_hvac \<notin> set (tips_of [entry_on 2024 3 1 10 ''HVAC'', entry_on 2024 3 1 10 ''Fridge''])"
proof -
  let ?es = "[entry_on 2024 3 1 10 ''HVAC'', entry_on 2024 3 1 10 ''Fridge'']"
  have cats: "categories ?es = [''HVAC'', ''Fridge'']"
    by (simp add: categories_def entry_on_def)
  have hvac: "category_usage ?es ''HVAC'' = 10" and fridge: "category_usage ?es ''Fridge'' = 10"
    by (simp_all add: category_usage_def totalUsage_of_def js_add_def entry_on_def
        binary64_small_values)
  have first: "dominant_first_encountered ?es = ''HVAC''"
    by (simp add: dominant_first_encountered_def largest_categories_def cats hvac fridge)
  have top: "topAppliance_of (applianceUsage_of ?es) = ''Fridge''"
    by (simp add: topAppliance_of_def applianceUsage_of_def entry_on_def or_zero_def js_gt_def
        js_add_def binary64_small_values)
  have avg: "avgDailyUsage_of ?es = 10"
    by (simp add: avgDailyUsage_of_def totalUsage_of_def entry_on_def js_add_def js_div_def
        binary64_small_values)
  have tips: "tips_of ?es = [tip_solar, tip_power_strips]"
    by (simp add: tips_of_def Let_def top avg)
  have "tip_hvac \<notin> set [tip_solar, tip_power_strips]"
    by (simp add: tip_hvac_def tip_solar_def tip_power_strips_def)
  with cats hvac fridge first top tips show ?thesis
    by (simp only: simp_thms)
qed

text \<open>
  Claim C6, as the code has it, for plain appliance labels and sums that do not overflow.
  The tips are the rule ladder in its order: the two tips for an average above 30, the two
  for an average above 50, then one tip when the dominant appliance is \<open>HVAC\<close> or
  \<open>Water Heater\<close>, and the two generic tips when the ladder gave none. The average is the
  engine's own, in doubles. The dominant appliance is the category of largest summed usage,
  the last one encountered when several are largest, and \<open>General\<close> when there is no entry.
\<close>

theorem tips_rule_ladder:
  assumes "list_all (\<lambda>e. plain_label (appliance e)) es" and "sums_in_range es"
  shows "tips_of es =
     (let avgDailyUsage = js_div (totalUsage_of es) (max (real (length es)) 1);
          dominant = dominant_last_encountered es;
          ladder =
            (if avgDailyUsage > 30 then [tip_led, tip_unplug] else [])
            @ (if avgDailyUsage > 50 then [tip_energy_star, tip_thermostat] else [])
            @ (if dominant = ''HVAC'' then [tip_hvac]
               else if dominant = ''Water Heater'' then [tip_water_heater]
               else [])
      in if ladder = [] then [tip_solar, tip_power_strips] else ladder)
   \<and> topAppliance_of (applianceUsage_of es) = dominant_last_encountered es"
  by (simp add: tips_of_def Let_def avgDailyUsage_of_def topAppliance_is_last_largest)

theorem tips_rule_ladder_witness:
  "list_all (\<lambda>e. plain_label (appliance e))
     [entry_on 2024 3 1 40 ''Fridge'', entry_on 2024 3 2 40 ''HVAC'']
   \<and> sums_in_range [entry_on 2024 3 1 40 ''Fridge'', entry_on 2024 3 2 40 ''HVAC'']
   \<and> dominant_last_encountered [entry_on 2024 3 1 40 ''Fridge'', entry_on 2024 3 2 40 ''HVAC'']
     = ''HVAC''
   \<and> tips_of [entry_on 2024 3 1 40 ''Fridge'', entry_on 2024 3 2 40 ''HVAC'']
     = [tip_led, tip_unplug, tip_hvac]"
proof -
  let ?es = "[entry_on 2024 3 1 40 ''Fridge'', entry_on 2024 3 2 40 ''HVAC'']"
  have labels: "list_all (\<lambda>e. plain_label (appliance e)) ?es"
    by (simp add: entry_on_def plain_labels)
  have cats: "categories ?es = [''Fridge'', ''HVAC'']"
    by (simp add: categories_def entry_on_def)
  have range: "sums_in_range ?es"
    by (simp add: sums_in_range_def sum_in_range_def list_all_iff entry_on_def js_add_def
        binary64_small_values overflows_def)
  have sums: "category_usage ?es ''Fridge'' = 40" "category_usage ?es ''HVAC'' = 40"
    by (simp_all add: category_usage_def totalUsage_of_def js_add_def entry_on_def
        binary64_small_values)
  have dominant: "dominant_last_encountered ?es = ''HVAC''"
    by (simp add: dominant_last_encountered_def largest_categories_def cats sums)
  have total: "totalUsage_of ?es = 80"
    by (simp add: totalUsage_of_def js_add_def entry_on_def binary64_small_values)
  from tips_rule_ladder [OF labels range, THEN conjunct1]
  have "tips_of ?es = [tip_led, tip_unplug, tip_hvac]"
    by (simp add: total dominant Let_def js_div_def binary64_small_values)
  with labels range dominant show ?thesis
    by (intro conjI)
qed

end
